theory Spec2Isabelle
  imports Main "HOL-Library.Word"
begin

section \<open>Strings of the host language\<close>

text \<open>
  A string of the source language is a finite sequence of 16-bit code units; every
  method used by \<^verbatim>\<open>fetchRecommendations\<close> (\<^verbatim>\<open>split\<close>, \<^verbatim>\<open>includes\<close>, \<^verbatim>\<open>trim\<close>, \<^verbatim>\<open>replace\<close>
  with a regular expression without the \<^verbatim>\<open>u\<close> flag) works on code units. The literals of
  the source outside ASCII are written as their code units.
\<close>

type_synonym jsstring = "16 word list"

definition ascii :: "string \<Rightarrow> jsstring" where
  "ascii s = map of_char s"

definition pipe :: "16 word" where
  "pipe = 0x7C"

definition newline :: "16 word" where
  "newline = 0x0A"

subsection \<open>\<^verbatim>\<open>String.prototype.split\<close> with a one-character separator\<close>

text \<open>
  \<open>splitAt sep s\<close> is the field before the first separator and the list of the fields
  after it; \<^verbatim>\<open>"".split(sep)\<close> is the one-element array holding the empty string.
\<close>

fun splitAt :: "'a \<Rightarrow> 'a list \<Rightarrow> 'a list \<times> 'a list list" where
  "splitAt sep [] = ([], [])"
| "splitAt sep (c # cs) =
     (let (p, ps) = splitAt sep cs
      in if c = sep then ([], p # ps) else (c # p, ps))"

definition split :: "'a \<Rightarrow> 'a list \<Rightarrow> 'a list list" where
  "split sep s = (let (p, ps) = splitAt sep s in p # ps)"

subsection \<open>\<^verbatim>\<open>String.prototype.includes\<close>\<close>

fun startsWith :: "'a list \<Rightarrow> 'a list \<Rightarrow> bool" where
  "startsWith s [] = True"
| "startsWith [] (p # ps) = False"
| "startsWith (c # cs) (p # ps) = (c = p \<and> startsWith cs ps)"

fun includesStr :: "'a list \<Rightarrow> 'a list \<Rightarrow> bool" where
  "includesStr [] t = (t = [])"
| "includesStr (c # cs) t = (startsWith (c # cs) t \<or> includesStr cs t)"

subsection \<open>White space, \<^verbatim>\<open>trim\<close> and the two \<^verbatim>\<open>replace\<close> calls\<close>

text \<open>
  The white space of \<^verbatim>\<open>trim\<close> and of the class \<^verbatim>\<open>\s\<close>: the WhiteSpace and LineTerminator
  code points of the language definition. The class \<^verbatim>\<open>\d\<close> is the ten ASCII digits.
\<close>

definition isWhiteSpace :: "16 word \<Rightarrow> bool" where
  "isWhiteSpace c \<longleftrightarrow>
     c \<in> {0x0009, 0x000A, 0x000B, 0x000C, 0x000D, 0x0020, 0x00A0, 0x1680,
          0x2028, 0x2029, 0x202F, 0x205F, 0x3000, 0xFEFF}
     \<or> (0x2000 \<le> c \<and> c \<le> 0x200A)"

definition isDigit :: "16 word \<Rightarrow> bool" where
  "isDigit c \<longleftrightarrow> 0x30 \<le> c \<and> c \<le> 0x39"

definition trim :: "jsstring \<Rightarrow> jsstring" where
  "trim s = rev (dropWhile isWhiteSpace (rev (dropWhile isWhiteSpace s)))"

text \<open>
  \<^verbatim>\<open>s.replace(/^\d+\.\s*/, '')\<close>: the pattern is anchored at the start, \<^verbatim>\<open>\d+\<close> takes the
  longest run of digits (a shorter run is followed by a digit, never by the dot), the dot
  is literal and \<^verbatim>\<open>\s*\<close> takes all the white space that follows. Without a match the
  string is returned as it is.
\<close>

definition stripOrdinal :: "jsstring \<Rightarrow> jsstring" where
  "stripOrdinal s =
     (case dropWhile isDigit s of
        [] \<Rightarrow> s
      | c # r \<Rightarrow>
          if takeWhile isDigit s \<noteq> [] \<and> c = 0x2E then dropWhile isWhiteSpace r else s)"

text \<open>\<^verbatim>\<open>s.replace(/\*/g, '')\<close>: every asterisk is removed.\<close>

definition stripAsterisks :: "jsstring \<Rightarrow> jsstring" where
  "stripAsterisks s = filter (\<lambda>c. c \<noteq> 0x2A) s"

subsection \<open>Decimal rendering of integers\<close>

text \<open>
  A template literal renders an integral number below \<open>10\<^sup>2\<^sup>1\<close> in magnitude (an array
  index, a time value of \<^verbatim>\<open>Date.now()\<close>) as its decimal digits.
\<close>

fun showNat :: "nat \<Rightarrow> jsstring" where
  "showNat n =
     (if n < 10 then [0x30 + of_nat n]
      else showNat (n div 10) @ [0x30 + of_nat (n mod 10)])"

declare showNat.simps [simp del]

definition showInt :: "int \<Rightarrow> jsstring" where
  "showInt i = (if i < 0 then 0x2D # showNat (nat (- i)) else showNat (nat i))"

subsection \<open>\<^verbatim>\<open>encodeURIComponent\<close>\<close>

datatype error = ServiceError jsstring | URIError

definition uriUnreserved :: "16 word \<Rightarrow> bool" where
  "uriUnreserved c \<longleftrightarrow>
     (0x41 \<le> c \<and> c \<le> 0x5A) \<or> (0x61 \<le> c \<and> c \<le> 0x7A) \<or> (0x30 \<le> c \<and> c \<le> 0x39)
     \<or> c \<in> {0x2D, 0x5F, 0x2E, 0x21, 0x7E, 0x2A, 0x27, 0x28, 0x29}"

definition isLeadSurrogate :: "16 word \<Rightarrow> bool" where
  "isLeadSurrogate c \<longleftrightarrow> 0xD800 \<le> c \<and> c \<le> 0xDBFF"

definition isTrailSurrogate :: "16 word \<Rightarrow> bool" where
  "isTrailSurrogate c \<longleftrightarrow> 0xDC00 \<le> c \<and> c \<le> 0xDFFF"

definition codePoint :: "16 word \<Rightarrow> 16 word \<Rightarrow> nat" where
  "codePoint lead trail = (unat lead - 0xD800) * 0x400 + (unat trail - 0xDC00) + 0x10000"

definition utf8 :: "nat \<Rightarrow> nat list" where
  "utf8 cp =
     (if cp < 0x80 then [cp]
      else if cp < 0x800 then [0xC0 + cp div 0x40, 0x80 + cp mod 0x40]
      else if cp < 0x10000 then
        [0xE0 + cp div 0x1000, 0x80 + (cp div 0x40) mod 0x40, 0x80 + cp mod 0x40]
      else
        [0xF0 + cp div 0x40000, 0x80 + (cp div 0x1000) mod 0x40,
         0x80 + (cp div 0x40) mod 0x40, 0x80 + cp mod 0x40])"

definition hexDigit :: "nat \<Rightarrow> 16 word" where
  "hexDigit d = (if d < 10 then 0x30 + of_nat d else 0x41 + of_nat (d - 10))"

definition percent :: "nat \<Rightarrow> jsstring" where
  "percent octet = [0x25, hexDigit (octet div 16), hexDigit (octet mod 16)]"

definition escapeCodePoint :: "nat \<Rightarrow> jsstring" where
  "escapeCodePoint cp = concat (map percent (utf8 cp))"

definition prepend :: "jsstring \<Rightarrow> error + jsstring \<Rightarrow> error + jsstring" where
  "prepend p r = (case r of Inl e \<Rightarrow> Inl e | Inr s \<Rightarrow> Inr (p @ s))"

text \<open>
  The unreserved code units are copied; every other code point is escaped octet by octet
  in UTF-8. A surrogate code unit that is not part of a pair raises \<^verbatim>\<open>URIError\<close>.
\<close>

fun encodeURIComponent :: "jsstring \<Rightarrow> error + jsstring" where
  "encodeURIComponent [] = Inr []"
| "encodeURIComponent [c] =
     (if uriUnreserved c then Inr [c]
      else if isTrailSurrogate c \<or> isLeadSurrogate c then Inl URIError
      else Inr (escapeCodePoint (unat c)))"
| "encodeURIComponent (c # d # ds) =
     (if uriUnreserved c then prepend [c] (encodeURIComponent (d # ds))
      else if isTrailSurrogate c then Inl URIError
      else if isLeadSurrogate c then
        (if isTrailSurrogate d
         then prepend (escapeCodePoint (codePoint c d)) (encodeURIComponent ds)
         else Inl URIError)
      else prepend (escapeCodePoint (unat c)) (encodeURIComponent (d # ds)))"

section \<open>The data of \<^verbatim>\<open>services/geminiService.ts\<close>\<close>

text \<open>
  A grounding chunk carries an optional web source and an optional maps source, each with
  an optional title and an optional URI. The response of the service carries an optional
  text and, under its first candidate, the optional grounding chunks.
\<close>

record Source =
  title :: "jsstring option"
  uri :: "jsstring option"

record GroundingChunk =
  web :: "Source option"
  maps :: "Source option"

record GroundingMetadata =
  groundingChunks :: "GroundingChunk list option"

record Candidate =
  groundingMetadata :: "GroundingMetadata option"

record GenerateContentResponse =
  responseText :: "jsstring option"
  candidates :: "Candidate list option"

text \<open>
  The coordinate: the type \<open>'n\<close> of its two numbers is left open, the code only
  renders them as text (the parameter \<open>str\<close> of the functions below).
\<close>

record 'n GeoLocation =
  lat :: 'n
  lng :: 'n

record Restaurant =
  idR :: jsstring
  name :: jsstring
  cuisine :: jsstring
  priceLevel :: jsstring
  rating :: jsstring
  description :: jsstring
  mapUri :: jsstring

section \<open>Parsing one line\<close>

text \<open>\<open>at xs i\<close> is \<^verbatim>\<open>xs[i]\<close>: \<^verbatim>\<open>undefined\<close> beyond the end of the array.\<close>

definition at :: "'a list \<Rightarrow> nat \<Rightarrow> 'a option" where
  "at xs i = (if i < length xs then Some (xs ! i) else None)"

text \<open>\<open>orElse v d\<close> is \<^verbatim>\<open>v || d\<close> for a string or \<^verbatim>\<open>undefined\<close> \<open>v\<close>: the empty string is falsy.\<close>

definition orElse :: "jsstring option \<Rightarrow> jsstring \<Rightarrow> jsstring" where
  "orElse v d = (case v of None \<Rightarrow> d | Some s \<Rightarrow> if s = [] then d else s)"

definition unknownRestaurant :: jsstring where
  "unknownRestaurant = [0x672A, 0x77E5, 0x9910, 0x5EF3]"

definition defaultCuisine :: jsstring where
  "defaultCuisine = [0x7F8E, 0x98DF]"

definition defaultPriceLevel :: jsstring where
  "defaultPriceLevel = ascii ''$''"

definition defaultRating :: jsstring where
  "defaultRating = ascii ''N/A''"

definition defaultDescription :: jsstring where
  "defaultDescription = [0x66AB, 0x7121, 0x63CF, 0x8FF0, 0x3002]"

definition partsOf :: "jsstring \<Rightarrow> jsstring list" where
  "partsOf line = map trim (split pipe line)"

definition nameOf :: "jsstring list \<Rightarrow> jsstring" where
  "nameOf parts =
     orElse (map_option (\<lambda>s. stripAsterisks (stripOrdinal s)) (at parts 0)) unknownRestaurant"

definition cuisineOf :: "jsstring list \<Rightarrow> jsstring" where
  "cuisineOf parts = orElse (at parts 1) defaultCuisine"

definition priceLevelOf :: "jsstring list \<Rightarrow> jsstring" where
  "priceLevelOf parts = orElse (at parts 2) defaultPriceLevel"

definition ratingOf :: "jsstring list \<Rightarrow> jsstring" where
  "ratingOf parts = orElse (at parts 3) defaultRating"

definition descriptionOf :: "jsstring list \<Rightarrow> jsstring" where
  "descriptionOf parts = orElse (at parts 4) defaultDescription"

section \<open>Grounding reconciliation\<close>

text \<open>
  \<^verbatim>\<open>src?.title?.toLowerCase().includes(name.toLowerCase())\<close>, with \<^verbatim>\<open>undefined\<close> read as false.
  The case mapping \<^verbatim>\<open>toLowerCase\<close> of the host language is the parameter \<open>lower\<close>.
\<close>

definition titleIncludes ::
  "(jsstring \<Rightarrow> jsstring) \<Rightarrow> Source option \<Rightarrow> jsstring \<Rightarrow> bool" where
  "titleIncludes lower src nm =
     (case src of
        None \<Rightarrow> False
      | Some s \<Rightarrow>
          (case title s of
             None \<Rightarrow> False
           | Some t \<Rightarrow> includesStr (lower t) (lower nm)))"

definition chunkMatches ::
  "(jsstring \<Rightarrow> jsstring) \<Rightarrow> jsstring \<Rightarrow> GroundingChunk \<Rightarrow> bool" where
  "chunkMatches lower nm c \<longleftrightarrow>
     titleIncludes lower (web c) nm \<or> titleIncludes lower (maps c) nm"

definition matchedChunk ::
  "(jsstring \<Rightarrow> jsstring) \<Rightarrow> GroundingChunk list \<Rightarrow> jsstring \<Rightarrow> GroundingChunk option" where
  "matchedChunk lower chunks nm = List.find (chunkMatches lower nm) chunks"

text \<open>\<open>usableUri src\<close> is the URI of \<^verbatim>\<open>src?.uri\<close> when it is truthy: present and not empty.\<close>

definition usableUri :: "Source option \<Rightarrow> jsstring option" where
  "usableUri src =
     (case src of
        None \<Rightarrow> None
      | Some s \<Rightarrow>
          (case uri s of
             None \<Rightarrow> None
           | Some u \<Rightarrow> if u = [] then None else Some u))"

definition groundedUri :: "GroundingChunk option \<Rightarrow> jsstring" where
  "groundedUri m =
     (case m of
        None \<Rightarrow> []
      | Some c \<Rightarrow>
          (case usableUri (maps c) of
             Some u \<Rightarrow> u
           | None \<Rightarrow> (case usableUri (web c) of Some u \<Rightarrow> u | None \<Rightarrow> [])))"

definition searchPrefix :: jsstring where
  "searchPrefix = ascii ''https://www.google.com/maps/search/?api=1&query=''"

definition searchQuery :: "('n \<Rightarrow> jsstring) \<Rightarrow> 'n GeoLocation \<Rightarrow> jsstring \<Rightarrow> jsstring" where
  "searchQuery str location nm =
     nm @ ascii '' '' @ str (lat location) @ ascii '','' @ str (lng location)"

definition mapUriFor ::
  "(jsstring \<Rightarrow> jsstring) \<Rightarrow> ('n \<Rightarrow> jsstring) \<Rightarrow> 'n GeoLocation \<Rightarrow> GroundingChunk list \<Rightarrow>
     jsstring \<Rightarrow> error + jsstring" where
  "mapUriFor lower str location chunks nm =
     (let u = groundedUri (matchedChunk lower chunks nm)
      in if u = [] then prepend searchPrefix (encodeURIComponent (searchQuery str location nm))
         else Inr u)"

section \<open>\<^verbatim>\<open>fetchRecommendations\<close>\<close>

definition toRestaurant ::
  "(jsstring \<Rightarrow> jsstring) \<Rightarrow> ('n \<Rightarrow> jsstring) \<Rightarrow> 'n GeoLocation \<Rightarrow> GroundingChunk list \<Rightarrow>
     int \<Rightarrow> nat \<Rightarrow> jsstring \<Rightarrow> error + Restaurant" where
  "toRestaurant lower str location chunks now index line =
     (let parts = partsOf line;
          nm = nameOf parts
      in case mapUriFor lower str location chunks nm of
           Inl e \<Rightarrow> Inl e
         | Inr u \<Rightarrow>
             Inr \<lparr> idR = ascii ''rest-'' @ showNat index @ ascii ''-'' @ showInt now,
                   name = nm,
                   cuisine = cuisineOf parts,
                   priceLevel = priceLevelOf parts,
                   rating = ratingOf parts,
                   description = descriptionOf parts,
                   mapUri = u \<rparr>)"

text \<open>
  \<^verbatim>\<open>Array.prototype.map\<close> with the index, for a callback that may throw: the first
  exception ends the whole call.
\<close>

fun mapIndexed :: "(nat \<Rightarrow> 'a \<Rightarrow> error + 'b) \<Rightarrow> nat \<Rightarrow> 'a list \<Rightarrow> error + 'b list" where
  "mapIndexed f i [] = Inr []"
| "mapIndexed f i (x # xs) =
     (case f i x of
        Inl e \<Rightarrow> Inl e
      | Inr y \<Rightarrow> (case mapIndexed f (Suc i) xs of Inl e \<Rightarrow> Inl e | Inr ys \<Rightarrow> Inr (y # ys)))"

definition qualifyingLines :: "jsstring \<Rightarrow> jsstring list" where
  "qualifyingLines txt = filter (\<lambda>line. includesStr line [pipe]) (split newline txt)"

text \<open>
  The transformation of a response text and a chunk list into the records. \<open>clock i\<close> is
  the reading of \<^verbatim>\<open>Date.now()\<close> taken while the record of index \<open>i\<close> is built.
\<close>

definition parseRestaurants ::
  "(jsstring \<Rightarrow> jsstring) \<Rightarrow> ('n \<Rightarrow> jsstring) \<Rightarrow> (nat \<Rightarrow> int) \<Rightarrow> 'n GeoLocation \<Rightarrow>
     jsstring \<Rightarrow> GroundingChunk list \<Rightarrow> error + Restaurant list" where
  "parseRestaurants lower str clock location txt chunks =
     mapIndexed (\<lambda>index line. toRestaurant lower str location chunks (clock index) index line)
       0 (take 5 (qualifyingLines txt))"

definition textOf :: "GenerateContentResponse \<Rightarrow> jsstring" where
  "textOf response = orElse (responseText response) []"

definition chunksOf :: "GenerateContentResponse \<Rightarrow> GroundingChunk list" where
  "chunksOf response =
     (case candidates response of
        None \<Rightarrow> []
      | Some cs \<Rightarrow>
          (case cs of
             [] \<Rightarrow> []
           | c # _ \<Rightarrow>
               (case groundingMetadata c of
                  None \<Rightarrow> []
                | Some g \<Rightarrow> (case groundingChunks g of None \<Rightarrow> [] | Some ch \<Rightarrow> ch))))"

text \<open>
  \<open>outcome\<close> is how the awaited call of the service settled: rejected with an error or
  fulfilled with a response. The prompt built from the category, the price and the
  distance only goes into that call. The state is the list of the errors written with
  \<^verbatim>\<open>console.error\<close>; the \<^verbatim>\<open>catch\<close> block logs whatever was thrown in the \<^verbatim>\<open>try\<close> block and
  throws it again.
\<close>

definition fetchRecommendations ::
  "(jsstring \<Rightarrow> jsstring) \<Rightarrow> ('n \<Rightarrow> jsstring) \<Rightarrow> (nat \<Rightarrow> int) \<Rightarrow> 'n GeoLocation \<Rightarrow>
     error + GenerateContentResponse \<Rightarrow> error list \<Rightarrow> error list \<times> (error + Restaurant list)" where
  "fetchRecommendations lower str clock location outcome log =
     (case (case outcome of
              Inl e \<Rightarrow> Inl e
            | Inr response \<Rightarrow>
                parseRestaurants lower str clock location (textOf response) (chunksOf response))
      of Inl e \<Rightarrow> (log @ [e], Inl e)
       | Inr restaurants \<Rightarrow> (log, Inr restaurants))"

section \<open>Auxiliary notions for the statements\<close>

text \<open>
  The case mapping restricted to ASCII text, where \<^verbatim>\<open>toLowerCase\<close> maps the letters A to Z to
  a to z and keeps every other code unit. It instantiates the parameter \<open>lower\<close> on concrete
  inputs.
\<close>

definition asciiLower :: "jsstring \<Rightarrow> jsstring" where
  "asciiLower s = map (\<lambda>c. if 0x41 \<le> c \<and> c \<le> 0x5A then c + 0x20 else c) s"

text \<open>A response with a preamble line and one qualifying line, and the record it yields.\<close>

definition sampleResponse :: GenerateContentResponse where
  "sampleResponse =
     \<lparr>responseText = Some (ascii ''Top picks:'' @ [newline] @ ascii ''1. **A b** | Thai''),
      candidates = Some [\<lparr>groundingMetadata = Some \<lparr>groundingChunks = Some []\<rparr>\<rparr>]\<rparr>"

definition sampleRecord :: Restaurant where
  "sampleRecord =
     \<lparr>idR = ascii ''rest-0-1700000000000'', name = ascii ''A b'', cuisine = ascii ''Thai'',
      priceLevel = ascii ''$'', rating = ascii ''N/A'',
      description = [0x66AB, 0x7121, 0x63CF, 0x8FF0, 0x3002],
      mapUri = ascii ''https://www.google.com/maps/search/?api=1&query=A%20b%2025%2C121''\<rparr>"

text \<open>
  Well-formed strings: every lead surrogate is followed by a trail surrogate and every
  trail surrogate follows a lead surrogate.
\<close>

definition isSurrogate :: "16 word \<Rightarrow> bool" where
  "isSurrogate c \<longleftrightarrow> isLeadSurrogate c \<or> isTrailSurrogate c"

fun wellFormed :: "jsstring \<Rightarrow> bool" where
  "wellFormed [] = True"
| "wellFormed [c] = (\<not> isLeadSurrogate c \<and> \<not> isTrailSurrogate c)"
| "wellFormed (c # d # ds) =
     (if isLeadSurrogate c then isTrailSurrogate d \<and> wellFormed ds
      else \<not> isTrailSurrogate c \<and> wellFormed (d # ds))"

text \<open>
  A clock that advances by one millisecond per record, a line whose name is an unpaired
  lead surrogate, a line of two fields with such a name, and a chunk with that name as
  title.
\<close>

definition sampleClock :: "int \<Rightarrow> nat \<Rightarrow> int" where
  "sampleClock start i = start + int i"

definition unpairedLine :: jsstring where
  "unpairedLine = [0xD800, 0x7C]"

definition shortUnpairedLine :: jsstring where
  "shortUnpairedLine = 0xD800 # ascii '' | Thai''"

definition unpairedChunk :: GroundingChunk where
  "unpairedChunk = \<lparr>web = None, maps = Some \<lparr>title = Some [0xD800], uri = Some (ascii ''U'')\<rparr>\<rparr>"

text \<open>Three chunks: one that does not match the name \<^verbatim>\<open>"din tai fung"\<close> and two that do.\<close>

definition sushiChunk :: GroundingChunk where
  "sushiChunk = \<lparr>web = Some \<lparr>title = Some (ascii ''Sushi Bar''), uri = Some (ascii ''U0'')\<rparr>, maps = None\<rparr>"

definition dinTaiFungChunk :: GroundingChunk where
  "dinTaiFungChunk =
     \<lparr>web = None,
      maps = Some \<lparr>title = Some (ascii ''Din Tai Fung Taipei''), uri = Some (ascii ''U1'')\<rparr>\<rparr>"

definition branchChunk :: GroundingChunk where
  "branchChunk =
     \<lparr>web = Some \<lparr>title = Some (ascii ''DIN TAI FUNG 101''), uri = Some (ascii ''U2'')\<rparr>, maps = None\<rparr>"

text \<open>Records and results with the identifiers blanked.\<close>

definition withoutId :: "Restaurant \<Rightarrow> Restaurant" where
  "withoutId r = r\<lparr>idR := []\<rparr>"

definition withoutIds :: "error + Restaurant list \<Rightarrow> error + Restaurant list" where
  "withoutIds res = (case res of Inl e \<Rightarrow> Inl e | Inr rs \<Rightarrow> Inr (map withoutId rs))"

section \<open>Facts about the string functions and the indexed map\<close>

lemma startsWith_iff: "startsWith s t \<longleftrightarrow> (\<exists>post. s = t @ post)"
  by (induction s t rule: startsWith.induct) auto

lemma includesStr_iff: "includesStr s t \<longleftrightarrow> (\<exists>pre post. s = pre @ t @ post)"
proof (induction s)
  case Nil
  then show ?case by auto
next
  case (Cons c cs)
  show ?case
  proof
    assume "includesStr (c # cs) t"
    then consider "startsWith (c # cs) t" | "includesStr cs t" by auto
    then show "\<exists>pre post. c # cs = pre @ t @ post"
    proof cases
      case 1
      then obtain post where "c # cs = t @ post" by (auto simp: startsWith_iff)
      then have "c # cs = [] @ t @ post" by simp
      then show ?thesis by blast
    next
      case 2
      then obtain pre post where "cs = pre @ t @ post" using Cons.IH by blast
      then have "c # cs = (c # pre) @ t @ post" by simp
      then show ?thesis by blast
    qed
  next
    assume "\<exists>pre post. c # cs = pre @ t @ post"
    then obtain pre post where eq: "c # cs = pre @ t @ post" by blast
    show "includesStr (c # cs) t"
    proof (cases pre)
      case Nil
      with eq have "startsWith (c # cs) t" by (auto simp: startsWith_iff)
      then show ?thesis by simp
    next
      case (Cons p pre')
      with eq have "cs = pre' @ t @ post" by simp
      then have "includesStr cs t" using Cons.IH by blast
      then show ?thesis by simp
    qed
  qed
qed

lemma includesStr_single: "includesStr s [c] \<longleftrightarrow> c \<in> set s"
  by (induction s) auto

lemma find_Some_first:
  "List.find P xs = Some x \<longleftrightarrow> (\<exists>pre post. xs = pre @ x # post \<and> P x \<and> (\<forall>y\<in>set pre. \<not> P y))"
proof (induction xs)
  case Nil
  then show ?case by simp
next
  case (Cons a xs)
  show ?case
  proof (cases "P a")
    case True
    have "(\<exists>pre post. a # xs = pre @ x # post \<and> P x \<and> (\<forall>y\<in>set pre. \<not> P y)) \<longleftrightarrow> a = x"
    proof
      assume "\<exists>pre post. a # xs = pre @ x # post \<and> P x \<and> (\<forall>y\<in>set pre. \<not> P y)"
      then obtain pre post where h: "a # xs = pre @ x # post" "\<forall>y\<in>set pre. \<not> P y" by blast
      show "a = x"
      proof (cases pre)
        case Nil
        with h show ?thesis by simp
      next
        case (Cons p pre')
        with h True show ?thesis by auto
      qed
    next
      assume "a = x"
      then have "a # xs = [] @ x # xs \<and> P x \<and> (\<forall>y\<in>set []. \<not> P y)" using True by simp
      then show "\<exists>pre post. a # xs = pre @ x # post \<and> P x \<and> (\<forall>y\<in>set pre. \<not> P y)" by blast
    qed
    with True show ?thesis by simp
  next
    case False
    have "(\<exists>pre post. a # xs = pre @ x # post \<and> P x \<and> (\<forall>y\<in>set pre. \<not> P y))
          \<longleftrightarrow> (\<exists>pre post. xs = pre @ x # post \<and> P x \<and> (\<forall>y\<in>set pre. \<not> P y))"
    proof
      assume "\<exists>pre post. a # xs = pre @ x # post \<and> P x \<and> (\<forall>y\<in>set pre. \<not> P y)"
      then obtain pre post where h: "a # xs = pre @ x # post" "P x" "\<forall>y\<in>set pre. \<not> P y" by blast
      show "\<exists>pre post. xs = pre @ x # post \<and> P x \<and> (\<forall>y\<in>set pre. \<not> P y)"
      proof (cases pre)
        case Nil
        with h False show ?thesis by simp
      next
        case (Cons p pre')
        with h have "xs = pre' @ x # post \<and> P x \<and> (\<forall>y\<in>set pre'. \<not> P y)" by simp
        then show ?thesis by blast
      qed
    next
      assume "\<exists>pre post. xs = pre @ x # post \<and> P x \<and> (\<forall>y\<in>set pre. \<not> P y)"
      then obtain pre post where h: "xs = pre @ x # post" "P x" "\<forall>y\<in>set pre. \<not> P y" by blast
      then have "a # xs = (a # pre) @ x # post \<and> P x \<and> (\<forall>y\<in>set (a # pre). \<not> P y)"
        using False by simp
      then show "\<exists>pre post. a # xs = pre @ x # post \<and> P x \<and> (\<forall>y\<in>set pre. \<not> P y)" by blast
    qed
    with False Cons.IH show ?thesis by simp
  qed
qed

lemma mapIndexed_length: "mapIndexed f i xs = Inr ys \<Longrightarrow> length ys = length xs"
  by (induction xs arbitrary: i ys) (auto split: sum.splits)

lemma mapIndexed_nth:
  "mapIndexed f i xs = Inr ys \<Longrightarrow> k < length xs \<Longrightarrow> f (i + k) (xs ! k) = Inr (ys ! k)"
proof (induction xs arbitrary: i ys k)
  case Nil
  then show ?case by simp
next
  case (Cons x xs)
  from Cons.prems(1) obtain y ys' where
    y: "f i x = Inr y" and ys': "mapIndexed f (Suc i) xs = Inr ys'" and eq: "ys = y # ys'"
    by (auto split: sum.splits)
  show ?case
  proof (cases k)
    case 0
    with y eq show ?thesis by simp
  next
    case (Suc k')
    with Cons.prems(2) have "k' < length xs" by simp
    from Cons.IH [OF ys' this] Suc eq show ?thesis by simp
  qed
qed

lemma mapIndexed_succeeds:
  "(\<And>k. k < length xs \<Longrightarrow> \<exists>y. f (i + k) (xs ! k) = Inr y) \<Longrightarrow> \<exists>ys. mapIndexed f i xs = Inr ys"
proof (induction xs arbitrary: i)
  case Nil
  then show ?case by simp
next
  case (Cons x xs)
  from Cons.prems [of 0] obtain y where y: "f i x = Inr y" by auto
  have "\<And>k. k < length xs \<Longrightarrow> \<exists>y. f (Suc i + k) (xs ! k) = Inr y"
    using Cons.prems [of "Suc k" for k] by auto
  from Cons.IH [OF this] obtain ys where "mapIndexed f (Suc i) xs = Inr ys" by blast
  with y show ?case by simp
qed

section \<open>Facts about the records and the claims on single lines\<close>

lemma searchPrefix_not_Nil: "searchPrefix \<noteq> []"
  by (simp add: searchPrefix_def ascii_def)

lemma prepend_Inr: "prepend p r = Inr s \<longleftrightarrow> (\<exists>q. r = Inr q \<and> s = p @ q)"
  by (auto simp: prepend_def split: sum.splits)

lemma mapUriFor_cases:
  "mapUriFor lower str location chunks nm = Inr u \<longleftrightarrow>
     (groundedUri (matchedChunk lower chunks nm) \<noteq> [] \<and> u = groundedUri (matchedChunk lower chunks nm))
     \<or> (groundedUri (matchedChunk lower chunks nm) = []
        \<and> (\<exists>q. encodeURIComponent (searchQuery str location nm) = Inr q \<and> u = searchPrefix @ q))"
  by (auto simp: mapUriFor_def Let_def prepend_Inr)

lemma mapUriFor_not_Nil: "mapUriFor lower str location chunks nm = Inr u \<Longrightarrow> u \<noteq> []"
  by (auto simp: mapUriFor_cases searchPrefix_not_Nil)

lemma toRestaurant_Inr:
  "toRestaurant lower str location chunks now index line = Inr r \<longleftrightarrow>
     (\<exists>u. mapUriFor lower str location chunks (nameOf (partsOf line)) = Inr u \<and>
          r = \<lparr> idR = ascii ''rest-'' @ showNat index @ ascii ''-'' @ showInt now,
                name = nameOf (partsOf line),
                cuisine = cuisineOf (partsOf line),
                priceLevel = priceLevelOf (partsOf line),
                rating = ratingOf (partsOf line),
                description = descriptionOf (partsOf line),
                mapUri = u \<rparr>)"
  by (auto simp: toRestaurant_def Let_def split: sum.splits)

lemma fetch_fulfilled:
  "fetchRecommendations lower str clock location (Inr response) log = (log', Inr rs) \<longleftrightarrow>
     parseRestaurants lower str clock location (textOf response) (chunksOf response) = Inr rs
     \<and> log' = log"
  by (auto simp: fetchRecommendations_def split: sum.splits)

lemma parseRestaurants_nth:
  assumes "parseRestaurants lower str clock location txt chunks = Inr rs"
  shows "length rs = min 5 (length (qualifyingLines txt))"
    and "i < length rs \<Longrightarrow>
           toRestaurant lower str location chunks (clock i) i (qualifyingLines txt ! i) = Inr (rs ! i)"
proof -
  from assms have m: "mapIndexed (\<lambda>index line. toRestaurant lower str location chunks (clock index) index line)
       0 (take 5 (qualifyingLines txt)) = Inr rs"
    by (simp add: parseRestaurants_def)
  from mapIndexed_length [OF m] show len: "length rs = min 5 (length (qualifyingLines txt))"
    by (simp add: min.commute)
  assume "i < length rs"
  with len have i: "i < length (take 5 (qualifyingLines txt))" by simp
  from mapIndexed_nth [OF m i] i show
    "toRestaurant lower str location chunks (clock i) i (qualifyingLines txt ! i) = Inr (rs ! i)"
    by simp
qed

text \<open>
  Claim C5. When the call of the service fails, \<^verbatim>\<open>fetchRecommendations\<close> fails as a whole: the
  error is written to the log once and thrown again to the caller, and no record is
  returned. Whatever the outcome of the call, the result is either an error, with exactly
  one new log entry, or a list of records, with the log unchanged: there is no partial
  result.
\<close>
theorem service_failure_fails_whole_call:
  "fetchRecommendations lower str clock location (Inl e) log = (log @ [e], Inl e)
   \<and> ((\<exists>e'. fetchRecommendations lower str clock location outcome log = (log @ [e'], Inl e'))
      \<or> (\<exists>rs. fetchRecommendations lower str clock location outcome log = (log, Inr rs)))"
  by (auto simp: fetchRecommendations_def split: sum.splits)

text \<open>
  Claim C7. When the matched chunk carries a maps-source URI (present and not empty), the
  record is built and its \<open>mapUri\<close> is that URI, whatever the web source of the chunk
  carries: the maps URI takes precedence over the web URI.
\<close>
theorem maps_uri_wins:
  assumes "matchedChunk lower chunks (nameOf (partsOf line)) = Some c"
      and "maps c = Some m" and "uri m = Some um" and "um \<noteq> []"
  shows "\<exists>r. toRestaurant lower str location chunks now index line = Inr r \<and> mapUri r = um"
proof -
  from assms have "groundedUri (matchedChunk lower chunks (nameOf (partsOf line))) = um"
    by (simp add: groundedUri_def usableUri_def)
  with assms(4) have "mapUriFor lower str location chunks (nameOf (partsOf line)) = Inr um"
    by (simp add: mapUriFor_def)
  then show ?thesis by (auto simp: toRestaurant_Inr)
qed


theorem maps_uri_wins_witness:
  "\<exists>r. toRestaurant asciiLower showInt \<lparr>lat = 25, lng = 121\<rparr>
          [\<lparr>web = Some \<lparr>title = Some (ascii ''Cafe A''), uri = Some (ascii ''W'')\<rparr>,
            maps = Some \<lparr>title = None, uri = Some (ascii ''M'')\<rparr>\<rparr>]
          0 0 (ascii ''cafe a | x'') = Inr r
       \<and> mapUri r = ascii ''M''"
proof -
  have n: "nameOf (partsOf (ascii ''cafe a | x'')) = ascii ''cafe a''"
    by (simp add: nameOf_def partsOf_def at_def orElse_def stripOrdinal_def stripAsterisks_def
        isDigit_def split_def pipe_def trim_def isWhiteSpace_def ascii_def)
  have m: "matchedChunk asciiLower
          [\<lparr>web = Some \<lparr>title = Some (ascii ''Cafe A''), uri = Some (ascii ''W'')\<rparr>,
            maps = Some \<lparr>title = None, uri = Some (ascii ''M'')\<rparr>\<rparr>]
          (nameOf (partsOf (ascii ''cafe a | x''))) =
        Some \<lparr>web = Some \<lparr>title = Some (ascii ''Cafe A''), uri = Some (ascii ''W'')\<rparr>,
            maps = Some \<lparr>title = None, uri = Some (ascii ''M'')\<rparr>\<rparr>"
    unfolding n
    by (simp add: matchedChunk_def chunkMatches_def titleIncludes_def asciiLower_def ascii_def)
  have u: "ascii ''M'' \<noteq> []" by (simp add: ascii_def)
  from maps_uri_wins [OF m _ _ u, of "\<lparr>title = None, uri = Some (ascii ''M'')\<rparr>"]
  show ?thesis by simp
qed

lemma not_isDigit_dot: "\<not> isDigit 0x2E"
  by (simp add: isDigit_def)

lemma stripOrdinal_prefix:
  assumes "digits \<noteq> []" and "\<forall>d\<in>set digits. isDigit d"
  shows "stripOrdinal (digits @ 0x2E # rest) = dropWhile isWhiteSpace rest"
proof -
  from assms(2) have t: "takeWhile isDigit (digits @ 0x2E # rest) = digits"
    by (simp add: takeWhile_append2 not_isDigit_dot)
  from assms(2) have d: "dropWhile isDigit (digits @ 0x2E # rest) = 0x2E # rest"
    by (simp add: dropWhile_append2 not_isDigit_dot)
  from assms(1) show ?thesis by (simp add: stripOrdinal_def t d)
qed

lemma stripOrdinal_no_digit: "s = [] \<or> \<not> isDigit (hd s) \<Longrightarrow> stripOrdinal s = s"
  by (cases s) (auto simp: stripOrdinal_def)

lemma orElse_not_Nil: "d \<noteq> [] \<Longrightarrow> orElse v d \<noteq> []"
  by (simp add: orElse_def split: option.splits)

lemma defaults_not_Nil:
  "unknownRestaurant \<noteq> []" "defaultCuisine \<noteq> []" "defaultPriceLevel \<noteq> []"
  "defaultRating \<noteq> []" "defaultDescription \<noteq> []"
  by (simp_all add: unknownRestaurant_def defaultCuisine_def defaultPriceLevel_def
      defaultRating_def defaultDescription_def ascii_def)

text \<open>
  Claim C8. Name cleanup strips a leading ordinal prefix, a non-empty run of digits
  followed by a dot and white space, and removes every asterisk: a name field with the
  prefix yields the rest of the field without its asterisks (the default name when
  nothing is left); a field that does not start with a digit only loses its asterisks; no
  name contains an asterisk; the field \<^verbatim>\<open>"1. "\<close> followed by the three code units
  \<^verbatim>\<open>U+9F0E U+6CF0 U+8C50\<close> yields these three code units.
\<close>
theorem name_cleanup:
  "(digits \<noteq> [] \<and> (\<forall>d\<in>set digits. isDigit d) \<longrightarrow>
      nameOf ((digits @ ascii ''. '' @ rest) # others) =
        orElse (Some (filter (\<lambda>c. c \<noteq> 0x2A) (dropWhile isWhiteSpace rest))) unknownRestaurant)
   \<and> (field = [] \<or> \<not> isDigit (hd field) \<longrightarrow>
      nameOf (field # others) = orElse (Some (filter (\<lambda>c. c \<noteq> 0x2A) field)) unknownRestaurant)
   \<and> 0x2A \<notin> set (nameOf parts)
   \<and> nameOf ((ascii ''1. '' @ [0x9F0E, 0x6CF0, 0x8C50]) # others) = [0x9F0E, 0x6CF0, 0x8C50]"
proof (intro conjI impI)
  assume a: "digits \<noteq> [] \<and> (\<forall>d\<in>set digits. isDigit d)"
  have "ascii ''. '' @ rest = 0x2E # 0x20 # rest" by (simp add: ascii_def)
  moreover have "dropWhile isWhiteSpace (0x20 # rest) = dropWhile isWhiteSpace rest"
    by (simp add: isWhiteSpace_def)
  ultimately have "stripOrdinal (digits @ ascii ''. '' @ rest) = dropWhile isWhiteSpace rest"
    using stripOrdinal_prefix [of digits "0x20 # rest"] a by simp
  then show "nameOf ((digits @ ascii ''. '' @ rest) # others) =
        orElse (Some (filter (\<lambda>c. c \<noteq> 0x2A) (dropWhile isWhiteSpace rest))) unknownRestaurant"
    by (simp add: nameOf_def at_def stripAsterisks_def)
next
  assume "field = [] \<or> \<not> isDigit (hd field)"
  then have "stripOrdinal field = field" by (rule stripOrdinal_no_digit)
  then show "nameOf (field # others) = orElse (Some (filter (\<lambda>c. c \<noteq> 0x2A) field)) unknownRestaurant"
    by (simp add: nameOf_def at_def stripAsterisks_def)
next
  show "0x2A \<notin> set (nameOf parts)"
    by (auto simp: nameOf_def at_def orElse_def stripAsterisks_def unknownRestaurant_def
        split: option.splits if_splits)
next
  show "nameOf ((ascii ''1. '' @ [0x9F0E, 0x6CF0, 0x8C50]) # others) = [0x9F0E, 0x6CF0, 0x8C50]"
    by (simp add: nameOf_def at_def orElse_def stripAsterisks_def stripOrdinal_def isDigit_def
        isWhiteSpace_def ascii_def)
qed

theorem name_cleanup_witness:
  "nameOf [ascii ''12. **A*B**'', ascii ''x''] = ascii ''AB''
   \<and> nameOf [ascii ''**A*B**'', ascii ''x''] = ascii ''AB''"
proof -
  have d: "ascii ''12'' \<noteq> [] \<and> (\<forall>d\<in>set (ascii ''12''). isDigit d)"
    by (simp add: ascii_def isDigit_def)
  have f: "ascii ''**A*B**'' = [] \<or> \<not> isDigit (hd (ascii ''**A*B**''))"
    by (simp add: ascii_def isDigit_def)
  from name_cleanup [of "ascii ''12''" "ascii ''**A*B**''" "[ascii ''x'']" "ascii ''**A*B**''" "[]"] d f
  show ?thesis by (simp add: ascii_def orElse_def isWhiteSpace_def)
qed

text \<open>
  The five fields of a line: a field beyond the end of the array of trimmed fields takes
  its default, the name \<^verbatim>\<open>U+672A U+77E5 U+9910 U+5EF3\<close>, the cuisine \<^verbatim>\<open>U+7F8E U+98DF\<close>, the price
  \<^verbatim>\<open>"$"\<close>, the rating \<^verbatim>\<open>"N/A"\<close> and the description \<^verbatim>\<open>U+66AB U+7121 U+63CF U+8FF0 U+3002\<close>, and
  each of the five fields is a non-empty string.
\<close>

lemma absent_fields_take_defaults:
  "nameOf [] = unknownRestaurant
   \<and> (length (partsOf line) \<le> 1 \<longrightarrow> cuisineOf (partsOf line) = defaultCuisine)
   \<and> (length (partsOf line) \<le> 2 \<longrightarrow> priceLevelOf (partsOf line) = defaultPriceLevel)
   \<and> (length (partsOf line) \<le> 3 \<longrightarrow> ratingOf (partsOf line) = defaultRating)
   \<and> (length (partsOf line) \<le> 4 \<longrightarrow> descriptionOf (partsOf line) = defaultDescription)
   \<and> nameOf (partsOf line) \<noteq> [] \<and> cuisineOf (partsOf line) \<noteq> []
   \<and> priceLevelOf (partsOf line) \<noteq> [] \<and> ratingOf (partsOf line) \<noteq> []
   \<and> descriptionOf (partsOf line) \<noteq> []"
  by (simp add: nameOf_def cuisineOf_def priceLevelOf_def ratingOf_def descriptionOf_def at_def
      orElse_not_Nil defaults_not_Nil) (simp add: orElse_def)

text \<open>
  Claim C10. A field that is present but empty after trimming takes its default value as
  an absent field does; in the line made of \<^verbatim>\<open>U+9F0E U+6CF0 U+8C50\<close> and \<^verbatim>\<open>" || $$ | 4.5 | desc"\<close>
  the second field trims to the empty string and the cuisine is the default cuisine.
\<close>
theorem empty_field_takes_default:
  "(i < length (split pipe line) \<and> trim (split pipe line ! i) = [] \<longrightarrow>
      (i = 0 \<longrightarrow> nameOf (partsOf line) = unknownRestaurant)
      \<and> (i = 1 \<longrightarrow> cuisineOf (partsOf line) = defaultCuisine)
      \<and> (i = 2 \<longrightarrow> priceLevelOf (partsOf line) = defaultPriceLevel)
      \<and> (i = 3 \<longrightarrow> ratingOf (partsOf line) = defaultRating)
      \<and> (i = 4 \<longrightarrow> descriptionOf (partsOf line) = defaultDescription))
   \<and> cuisineOf (partsOf ([0x9F0E, 0x6CF0, 0x8C50] @ ascii '' || $$ | 4.5 | desc'')) = defaultCuisine"
proof (intro conjI impI)
  show "cuisineOf (partsOf ([0x9F0E, 0x6CF0, 0x8C50] @ ascii '' || $$ | 4.5 | desc'')) = defaultCuisine"
    by (simp add: cuisineOf_def partsOf_def at_def orElse_def split_def pipe_def trim_def
        isWhiteSpace_def ascii_def)
qed (simp_all add: nameOf_def cuisineOf_def priceLevelOf_def ratingOf_def descriptionOf_def
    partsOf_def at_def orElse_def stripOrdinal_def stripAsterisks_def)


theorem empty_field_takes_default_witness:
  "trim (split pipe (ascii ''A |  | $$ | | '') ! 1) = []
   \<and> cuisineOf (partsOf (ascii ''A |  | $$ | | '')) = [0x7F8E, 0x98DF]"
proof -
  have h: "1 < length (split pipe (ascii ''A |  | $$ | | '')) \<and>
           trim (split pipe (ascii ''A |  | $$ | | '') ! 1) = []"
    by (simp add: split_def pipe_def trim_def isWhiteSpace_def ascii_def)
  from empty_field_takes_default [of 1 "ascii ''A |  | $$ | | ''"] h
  show ?thesis by (simp add: defaultCuisine_def)
qed

section \<open>The map link of a record\<close>

lemma usableUri_not_Nil: "usableUri src = Some u \<Longrightarrow> u \<noteq> []"
  by (auto simp: usableUri_def split: option.splits if_splits)

lemma groundedUri_Nil_iff:
  "groundedUri m = [] \<longleftrightarrow>
     m = None \<or> (\<exists>c. m = Some c \<and> usableUri (maps c) = None \<and> usableUri (web c) = None)"
  by (auto simp: groundedUri_def split: option.splits dest: usableUri_not_Nil)

text \<open>
  Claim C1. For every response and chunk list, every record returned by
  \<^verbatim>\<open>fetchRecommendations\<close> has a non-empty \<open>mapUri\<close>; when no chunk matches the name of the
  record, or the matched chunk has no usable URI in its maps source and in its web source,
  \<open>mapUri\<close> is the search link: the fixed prefix followed by the percent-encoding of the
  name, a space and the coordinate.
\<close>
theorem mapUri_never_empty:
  assumes "fetchRecommendations lower str clock location (Inr response) log = (log', Inr rs)"
      and "r \<in> set rs"
  shows "mapUri r \<noteq> []
    \<and> (matchedChunk lower (chunksOf response) (name r) = None
       \<or> (\<exists>c. matchedChunk lower (chunksOf response) (name r) = Some c
              \<and> usableUri (maps c) = None \<and> usableUri (web c) = None)
       \<longrightarrow> (\<exists>q. encodeURIComponent (searchQuery str location (name r)) = Inr q
                \<and> mapUri r = searchPrefix @ q))"
proof -
  from assms(1) have p: "parseRestaurants lower str clock location (textOf response) (chunksOf response) = Inr rs"
    by (simp add: fetch_fulfilled)
  from assms(2) obtain i where i: "i < length rs" and r: "rs ! i = r"
    by (auto simp: in_set_conv_nth)
  from parseRestaurants_nth(2) [OF p i] r
  have "toRestaurant lower str location (chunksOf response) (clock i) i
          (qualifyingLines (textOf response) ! i) = Inr r"
    by simp
  then have u: "mapUriFor lower str location (chunksOf response) (name r) = Inr (mapUri r)"
    by (auto simp: toRestaurant_Inr)
  from u have "mapUri r \<noteq> []" by (rule mapUriFor_not_Nil)
  moreover from u have
    "groundedUri (matchedChunk lower (chunksOf response) (name r)) = [] \<longrightarrow>
       (\<exists>q. encodeURIComponent (searchQuery str location (name r)) = Inr q
              \<and> mapUri r = searchPrefix @ q)"
    by (auto simp: mapUriFor_cases)
  ultimately show ?thesis by (simp add: groundedUri_Nil_iff)
qed

lemmas string_eval = ascii_def pipe_def newline_def split_def trim_def isWhiteSpace_def isDigit_def
  stripOrdinal_def stripAsterisks_def showNat.simps showInt_def asciiLower_def
lemmas encode_eval = uriUnreserved_def isLeadSurrogate_def isTrailSurrogate_def codePoint_def
  utf8_def hexDigit_def percent_def escapeCodePoint_def prepend_def
lemmas parse_eval = at_def orElse_def unknownRestaurant_def defaultCuisine_def
  defaultPriceLevel_def defaultRating_def defaultDescription_def partsOf_def nameOf_def
  cuisineOf_def priceLevelOf_def ratingOf_def descriptionOf_def
lemmas fetch_eval = titleIncludes_def chunkMatches_def matchedChunk_def usableUri_def
  groundedUri_def searchPrefix_def searchQuery_def mapUriFor_def toRestaurant_def
  qualifyingLines_def parseRestaurants_def textOf_def chunksOf_def fetchRecommendations_def

lemma sample_fetch:
  "fetchRecommendations asciiLower showInt (\<lambda>i. 1700000000000 + int i) \<lparr>lat = 25, lng = 121\<rparr>
     (Inr sampleResponse) [] = ([], Inr [sampleRecord])"
  by (simp add: sampleResponse_def sampleRecord_def string_eval encode_eval parse_eval fetch_eval)

theorem mapUri_never_empty_witness:
  "mapUri sampleRecord \<noteq> []
   \<and> (\<exists>q. encodeURIComponent (searchQuery showInt \<lparr>lat = 25, lng = 121\<rparr> (name sampleRecord)) = Inr q
          \<and> mapUri sampleRecord = searchPrefix @ q)"
proof -
  have m: "sampleRecord \<in> set [sampleRecord]" by simp
  have c: "matchedChunk asciiLower (chunksOf sampleResponse) (name sampleRecord) = None"
    by (simp add: matchedChunk_def chunksOf_def sampleResponse_def)
  from mapUri_never_empty [OF sample_fetch m] c show ?thesis by simp
qed

lemma titleIncludes_iff:
  "titleIncludes lower src nm \<longleftrightarrow>
     (\<exists>s t pre post. src = Some s \<and> title s = Some t \<and> lower t = pre @ lower nm @ post)"
  by (cases src) (auto simp: titleIncludes_def includesStr_iff split: option.splits)

lemma chunkMatches_iff:
  "chunkMatches lower nm c \<longleftrightarrow>
     (\<exists>s t pre post. (web c = Some s \<or> maps c = Some s) \<and> title s = Some t
                     \<and> lower t = pre @ lower nm @ post)"
  unfolding chunkMatches_def titleIncludes_iff by blast

lemma matchedChunk_first:
  assumes "chunks = before @ c # after" and "chunkMatches lower nm c"
      and "\<forall>d\<in>set before. \<not> chunkMatches lower nm d"
  shows "matchedChunk lower chunks nm = Some c"
  unfolding matchedChunk_def find_Some_first using assms by blast

lemma matchedChunk_none:
  "\<forall>d\<in>set chunks. \<not> chunkMatches lower nm d \<Longrightarrow> matchedChunk lower chunks nm = None"
  by (simp add: matchedChunk_def find_None_iff)

lemma mapUriFor_maps:
  "matchedChunk lower chunks nm = Some c \<Longrightarrow> usableUri (maps c) = Some u \<Longrightarrow>
   mapUriFor lower str location chunks nm = Inr u"
  by (auto simp: mapUriFor_def groundedUri_def dest: usableUri_not_Nil)

lemma mapUriFor_web:
  "matchedChunk lower chunks nm = Some c \<Longrightarrow> usableUri (maps c) = None \<Longrightarrow>
   usableUri (web c) = Some u \<Longrightarrow> mapUriFor lower str location chunks nm = Inr u"
  by (auto simp: mapUriFor_def groundedUri_def dest: usableUri_not_Nil)

lemma mapUriFor_fallback:
  "groundedUri (matchedChunk lower chunks nm) = [] \<Longrightarrow>
   mapUriFor lower str location chunks nm =
     prepend searchPrefix (encodeURIComponent (searchQuery str location nm))"
  by (simp add: mapUriFor_def)

lemma toRestaurant_mapUri:
  "mapUriFor lower str location chunks (nameOf (partsOf line)) = Inr u \<Longrightarrow>
   \<exists>r. toRestaurant lower str location chunks now index line = Inr r \<and> mapUri r = u"
  by (auto simp: toRestaurant_Inr)

lemma toRestaurant_link:
  "toRestaurant lower str location chunks now index line = Inr r \<Longrightarrow>
   name r = nameOf (partsOf line)
   \<and> mapUriFor lower str location chunks (nameOf (partsOf line)) = Inr (mapUri r)"
  by (auto simp: toRestaurant_Inr)

text \<open>
  Claim C6. For the record built from a line, the chunk that decides the link is the first
  chunk of the list that matches the name of the record, where a chunk matches when the
  lower-cased title of its web source or of its maps source contains the lower-cased name
  as a substring: when that chunk has a usable URI (the maps one, else the web one) the
  record is built and its \<open>mapUri\<close> is that URI, whatever the chunks before and after it
  carry; when it has none, or when no chunk matches, the \<open>mapUri\<close> of the record is the
  search link. The same holds for every record returned by \<^verbatim>\<open>fetchRecommendations\<close>. With the
  single chunk of maps title \<^verbatim>\<open>"Din Tai Fung Taipei"\<close> and URI \<^verbatim>\<open>"U1"\<close> and a line whose name is
  \<^verbatim>\<open>"din tai fung"\<close>, the \<open>mapUri\<close> of the record is \<^verbatim>\<open>"U1"\<close>, for every case mapping that is the
  ASCII one on ASCII text.
\<close>

theorem grounding_selects_first_match:
  "(chunks = before @ c # after
      \<and> chunkMatches lower (nameOf (partsOf line)) c
      \<and> (\<forall>d\<in>set before. \<not> chunkMatches lower (nameOf (partsOf line)) d) \<longrightarrow>
      (usableUri (maps c) = Some u \<or> usableUri (maps c) = None \<and> usableUri (web c) = Some u \<longrightarrow>
         (\<exists>r. toRestaurant lower str location chunks now index line = Inr r \<and> mapUri r = u))
      \<and> (usableUri (maps c) = None \<and> usableUri (web c) = None \<longrightarrow>
         (\<forall>r. toRestaurant lower str location chunks now index line = Inr r \<longrightarrow>
              Inr (mapUri r) =
                prepend searchPrefix (encodeURIComponent (searchQuery str location (name r))))))
   \<and> ((\<forall>d\<in>set chunks. \<not> chunkMatches lower (nameOf (partsOf line)) d) \<longrightarrow>
      (\<forall>r. toRestaurant lower str location chunks now index line = Inr r \<longrightarrow>
           Inr (mapUri r) =
             prepend searchPrefix (encodeURIComponent (searchQuery str location (name r)))))
   \<and> (fetchRecommendations lower str clock location (Inr response) log = (log', Inr rs)
      \<and> r' \<in> set rs
      \<and> chunksOf response = before' @ c' # after'
      \<and> chunkMatches lower (name r') c'
      \<and> (\<forall>d\<in>set before'. \<not> chunkMatches lower (name r') d)
      \<and> (usableUri (maps c') = Some u' \<or> usableUri (maps c') = None \<and> usableUri (web c') = Some u')
      \<longrightarrow> mapUri r' = u')
   \<and> (chunkMatches lower nm c \<longleftrightarrow>
      (\<exists>s t pre post. (web c = Some s \<or> maps c = Some s) \<and> title s = Some t
                      \<and> lower t = pre @ lower nm @ post))
   \<and> ((\<forall>s. (\<forall>x\<in>set s. x < 0x80) \<longrightarrow> lower s = asciiLower s)
        \<and> nameOf (partsOf line) = ascii ''din tai fung'' \<longrightarrow>
      (\<exists>r. toRestaurant lower str location
              [\<lparr>web = None,
                maps = Some \<lparr>title = Some (ascii ''Din Tai Fung Taipei''), uri = Some (ascii ''U1'')\<rparr>\<rparr>]
              now index line = Inr r
           \<and> mapUri r = ascii ''U1''))"
proof (intro conjI impI allI)
  assume a: "chunks = before @ c # after
      \<and> chunkMatches lower (nameOf (partsOf line)) c
      \<and> (\<forall>d\<in>set before. \<not> chunkMatches lower (nameOf (partsOf line)) d)"
  then have m: "matchedChunk lower chunks (nameOf (partsOf line)) = Some c"
    using matchedChunk_first by blast
  {
    assume "usableUri (maps c) = Some u \<or> usableUri (maps c) = None \<and> usableUri (web c) = Some u"
    with m have "mapUriFor lower str location chunks (nameOf (partsOf line)) = Inr u"
      using mapUriFor_maps mapUriFor_web by blast
    then show "\<exists>r. toRestaurant lower str location chunks now index line = Inr r \<and> mapUri r = u"
      by (rule toRestaurant_mapUri)
  }
  {
    fix r
    assume n: "usableUri (maps c) = None \<and> usableUri (web c) = None"
       and t: "toRestaurant lower str location chunks now index line = Inr r"
    from m n have "groundedUri (matchedChunk lower chunks (nameOf (partsOf line))) = []"
      by (simp add: groundedUri_def)
    with toRestaurant_link [OF t] mapUriFor_fallback
    show "Inr (mapUri r) =
            prepend searchPrefix (encodeURIComponent (searchQuery str location (name r)))"
      by metis
  }
next
  fix r
  assume n: "\<forall>d\<in>set chunks. \<not> chunkMatches lower (nameOf (partsOf line)) d"
     and t: "toRestaurant lower str location chunks now index line = Inr r"
  from n have "groundedUri (matchedChunk lower chunks (nameOf (partsOf line))) = []"
    by (simp add: matchedChunk_none groundedUri_def)
  with toRestaurant_link [OF t] mapUriFor_fallback
  show "Inr (mapUri r) =
          prepend searchPrefix (encodeURIComponent (searchQuery str location (name r)))"
    by metis
next
  assume a: "fetchRecommendations lower str clock location (Inr response) log = (log', Inr rs)
      \<and> r' \<in> set rs
      \<and> chunksOf response = before' @ c' # after'
      \<and> chunkMatches lower (name r') c'
      \<and> (\<forall>d\<in>set before'. \<not> chunkMatches lower (name r') d)
      \<and> (usableUri (maps c') = Some u' \<or> usableUri (maps c') = None \<and> usableUri (web c') = Some u')"
  then have "fetchRecommendations lower str clock location (Inr response) log = (log', Inr rs)"
    by (rule conjunct1)
  then have p: "parseRestaurants lower str clock location (textOf response) (chunksOf response) = Inr rs"
    by (simp add: fetch_fulfilled)
  from a obtain i where i: "i < length rs" and r: "rs ! i = r'"
    by (auto simp: in_set_conv_nth)
  from parseRestaurants_nth(2) [OF p i] r
  have "toRestaurant lower str location (chunksOf response) (clock i) i
          (qualifyingLines (textOf response) ! i) = Inr r'"
    by simp
  then have l: "mapUriFor lower str location (chunksOf response) (name r') = Inr (mapUri r')"
    using toRestaurant_link by metis
  from a have "matchedChunk lower (chunksOf response) (name r') = Some c'"
    using matchedChunk_first by blast
  with a have "mapUriFor lower str location (chunksOf response) (name r') = Inr u'"
    using mapUriFor_maps mapUriFor_web by blast
  with l show "mapUri r' = u'" by simp
next
  show "chunkMatches lower nm c \<longleftrightarrow>
      (\<exists>s t pre post. (web c = Some s \<or> maps c = Some s) \<and> title s = Some t
                      \<and> lower t = pre @ lower nm @ post)"
    by (rule chunkMatches_iff)
next
  assume a: "(\<forall>s. (\<forall>x\<in>set s. x < 0x80) \<longrightarrow> lower s = asciiLower s)
        \<and> nameOf (partsOf line) = ascii ''din tai fung''"
  have "\<forall>x\<in>set (ascii ''Din Tai Fung Taipei''). x < 0x80" by (simp add: ascii_def)
  with a have t: "lower (ascii ''Din Tai Fung Taipei'') = asciiLower (ascii ''Din Tai Fung Taipei'')"
    by blast
  have "\<forall>x\<in>set (ascii ''din tai fung''). x < 0x80" by (simp add: ascii_def)
  with a have n: "lower (ascii ''din tai fung'') = asciiLower (ascii ''din tai fung'')"
    by blast
  have "includesStr (asciiLower (ascii ''Din Tai Fung Taipei'')) (asciiLower (ascii ''din tai fung''))"
    by (simp add: asciiLower_def ascii_def)
  with t n have
    "mapUriFor lower str location
       [\<lparr>web = None,
         maps = Some \<lparr>title = Some (ascii ''Din Tai Fung Taipei''), uri = Some (ascii ''U1'')\<rparr>\<rparr>]
       (ascii ''din tai fung'') = Inr (ascii ''U1'')"
    by (simp add: mapUriFor_def matchedChunk_def chunkMatches_def titleIncludes_def groundedUri_def
        usableUri_def) (simp add: ascii_def)
  with a show "\<exists>r. toRestaurant lower str location
              [\<lparr>web = None,
                maps = Some \<lparr>title = Some (ascii ''Din Tai Fung Taipei''), uri = Some (ascii ''U1'')\<rparr>\<rparr>]
              now index line = Inr r
           \<and> mapUri r = ascii ''U1''"
    by (auto simp: toRestaurant_Inr)
qed


theorem grounding_selects_first_match_witness:
  "\<exists>r. toRestaurant asciiLower showInt \<lparr>lat = 25, lng = 121\<rparr>
          [sushiChunk, dinTaiFungChunk, branchChunk] 0 0 (ascii ''din tai fung | x'') = Inr r
       \<and> mapUri r = ascii ''U1''
       \<and> chunkMatches asciiLower (ascii ''din tai fung'') branchChunk"
proof -
  have b: "chunkMatches asciiLower (ascii ''din tai fung'') branchChunk"
    by (simp add: chunkMatches_def titleIncludes_def branchChunk_def asciiLower_def ascii_def)
  have n: "nameOf (partsOf (ascii ''din tai fung | x'')) = ascii ''din tai fung''"
    by (simp add: string_eval parse_eval)
  have h1: "[sushiChunk, dinTaiFungChunk, branchChunk] = [sushiChunk] @ dinTaiFungChunk # [branchChunk]"
    by simp
  have h2: "chunkMatches asciiLower (nameOf (partsOf (ascii ''din tai fung | x''))) dinTaiFungChunk"
    unfolding n
    by (simp add: chunkMatches_def titleIncludes_def dinTaiFungChunk_def asciiLower_def ascii_def)
  have h3: "\<forall>d\<in>set [sushiChunk].
              \<not> chunkMatches asciiLower (nameOf (partsOf (ascii ''din tai fung | x''))) d"
    unfolding n
    by (simp add: chunkMatches_def titleIncludes_def sushiChunk_def asciiLower_def ascii_def)
  have h4: "usableUri (maps dinTaiFungChunk) = Some (ascii ''U1'')"
    by (simp add: usableUri_def dinTaiFungChunk_def ascii_def)
  have pre: "[sushiChunk, dinTaiFungChunk, branchChunk] = [sushiChunk] @ dinTaiFungChunk # [branchChunk]
      \<and> chunkMatches asciiLower (nameOf (partsOf (ascii ''din tai fung | x''))) dinTaiFungChunk
      \<and> (\<forall>d\<in>set [sushiChunk].
            \<not> chunkMatches asciiLower (nameOf (partsOf (ascii ''din tai fung | x''))) d)"
    using h1 h2 h3 by (intro conjI)
  have u: "usableUri (maps dinTaiFungChunk) = Some (ascii ''U1'')
      \<or> usableUri (maps dinTaiFungChunk) = None \<and> usableUri (web dinTaiFungChunk) = Some (ascii ''U1'')"
    using h4 by (rule disjI1)
  have "\<exists>r. toRestaurant asciiLower showInt \<lparr>lat = 25, lng = 121\<rparr>
          [sushiChunk, dinTaiFungChunk, branchChunk] 0 0 (ascii ''din tai fung | x'') = Inr r
       \<and> mapUri r = ascii ''U1''"
    by (rule grounding_selects_first_match [where lower = asciiLower
          and chunks = "[sushiChunk, dinTaiFungChunk, branchChunk]" and before = "[sushiChunk]"
          and c = dinTaiFungChunk and after = "[branchChunk]"
          and line = "ascii ''din tai fung | x''" and u = "ascii ''U1''" and str = showInt
          and location = "\<lparr>lat = 25, lng = 121\<rparr>" and now = 0 and index = 0,
          THEN conjunct1, THEN mp, OF pre, THEN conjunct1, THEN mp, OF u])
  then obtain r where
    "toRestaurant asciiLower showInt \<lparr>lat = 25, lng = 121\<rparr>
       [sushiChunk, dinTaiFungChunk, branchChunk] 0 0 (ascii ''din tai fung | x'') = Inr r"
    and "mapUri r = ascii ''U1''"
    by (elim exE conjE)
  with b show ?thesis by (intro exI conjI)
qed

section \<open>Well-formed text and the number of records\<close>

lemma lead_not_trail: "isLeadSurrogate c \<Longrightarrow> \<not> isTrailSurrogate c"
  by (auto simp: isLeadSurrogate_def isTrailSurrogate_def word_le_nat_alt)

lemma unreserved_not_surrogate: "uriUnreserved c \<Longrightarrow> \<not> isSurrogate c"
  by (auto simp: uriUnreserved_def isSurrogate_def isLeadSurrogate_def isTrailSurrogate_def
      word_le_nat_alt)

lemma whiteSpace_not_surrogate: "isWhiteSpace c \<Longrightarrow> \<not> isSurrogate c"
  by (auto simp: isWhiteSpace_def isSurrogate_def isLeadSurrogate_def isTrailSurrogate_def
      word_le_nat_alt)

lemma digit_not_surrogate: "isDigit c \<Longrightarrow> \<not> isSurrogate c"
  by (auto simp: isDigit_def isSurrogate_def isLeadSurrogate_def isTrailSurrogate_def
      word_le_nat_alt)

lemma wellFormed_Cons: "\<not> isSurrogate c \<Longrightarrow> wellFormed (c # s) = wellFormed s"
  by (cases s) (auto simp: isSurrogate_def)

lemma wellFormed_append: "wellFormed xs \<Longrightarrow> wellFormed ys \<Longrightarrow> wellFormed (xs @ ys)"
proof (induction xs rule: wellFormed.induct)
  case 1
  then show ?case by simp
next
  case (2 c)
  then show ?case by (simp add: wellFormed_Cons isSurrogate_def)
next
  case (3 c d ds)
  show ?case
  proof (cases "isLeadSurrogate c")
    case True
    with 3 show ?thesis by simp
  next
    case False
    with "3.prems" have c: "\<not> isSurrogate c" and r: "wellFormed (d # ds)"
      by (simp_all add: isSurrogate_def)
    from "3.IH"(2) [OF False r "3.prems"(2)] c show ?thesis
      by (simp add: wellFormed_Cons del: wellFormed.simps)
  qed
qed

lemma wellFormed_snoc: "\<not> isSurrogate c \<Longrightarrow> wellFormed (xs @ [c]) = wellFormed xs"
proof (induction xs rule: wellFormed.induct)
  case 1
  then show ?case by (simp add: isSurrogate_def)
next
  case (2 a)
  then show ?case by (auto simp: isSurrogate_def)
next
  case (3 a d ds)
  show ?case
  proof (cases "isLeadSurrogate a")
    case True
    with 3 show ?thesis by simp
  next
    case False
    from "3.IH"(2) [OF False "3.prems"] have "wellFormed (d # ds @ [c]) = wellFormed (d # ds)"
      by simp
    with False show ?thesis by simp
  qed
qed

lemma wellFormed_drop_suffix:
  "wellFormed (xs @ ys) \<Longrightarrow> \<forall>c\<in>set ys. \<not> isSurrogate c \<Longrightarrow> wellFormed xs"
proof (induction ys rule: rev_induct)
  case Nil
  then show ?case by simp
next
  case (snoc y ys)
  from snoc.prems have "wellFormed ((xs @ ys) @ [y])" and y: "\<not> isSurrogate y" by simp_all
  then have "wellFormed (xs @ ys)" by (simp only: wellFormed_snoc [OF y])
  with snoc show ?case by simp
qed

lemma wellFormed_dropWhile:
  assumes "\<And>c. P c \<Longrightarrow> \<not> isSurrogate c"
  shows "wellFormed s \<Longrightarrow> wellFormed (dropWhile P s)"
proof (induction s)
  case Nil
  then show ?case by simp
next
  case (Cons c s)
  show ?case
  proof (cases "P c")
    case True
    with Cons assms show ?thesis by (simp add: wellFormed_Cons del: wellFormed.simps)
  next
    case False
    with Cons.prems show ?thesis by (simp del: wellFormed.simps)
  qed
qed

lemma wellFormed_trim: "wellFormed s \<Longrightarrow> wellFormed (trim s)"
proof -
  assume "wellFormed s"
  then have t: "wellFormed (dropWhile isWhiteSpace s)"
    by (rule wellFormed_dropWhile [rotated]) (rule whiteSpace_not_surrogate)
  let ?t = "dropWhile isWhiteSpace s"
  have "rev (dropWhile isWhiteSpace (rev ?t)) @ rev (takeWhile isWhiteSpace (rev ?t)) =
        rev (takeWhile isWhiteSpace (rev ?t) @ dropWhile isWhiteSpace (rev ?t))"
    by (simp only: rev_append)
  also have "\<dots> = ?t" by (simp only: takeWhile_dropWhile_id rev_rev_ident)
  finally have eq: "?t = rev (dropWhile isWhiteSpace (rev ?t)) @ rev (takeWhile isWhiteSpace (rev ?t))"
    by (rule sym)
  have "\<forall>c\<in>set (rev (takeWhile isWhiteSpace (rev ?t))). \<not> isSurrogate c"
    by (auto dest: set_takeWhileD whiteSpace_not_surrogate)
  with t eq have "wellFormed (rev (dropWhile isWhiteSpace (rev ?t)))"
    using wellFormed_drop_suffix by metis
  then show ?thesis by (simp add: trim_def)
qed

lemma wellFormed_filter:
  assumes "\<And>c. \<not> P c \<Longrightarrow> \<not> isSurrogate c"
  shows "wellFormed s \<Longrightarrow> wellFormed (filter P s)"
proof (induction s rule: wellFormed.induct)
  case 1
  then show ?case by simp
next
  case (2 c)
  then show ?case by simp
next
  case (3 c d ds)
  show ?case
  proof (cases "isLeadSurrogate c")
    case True
    with "3.prems" have d: "isTrailSurrogate d" and r: "wellFormed ds" by simp_all
    from True assms have "P c" by (auto simp: isSurrogate_def)
    moreover from d assms have "P d" by (auto simp: isSurrogate_def)
    ultimately show ?thesis using True d "3.IH"(1) [OF True r] by simp
  next
    case False
    with "3.prems" have c: "\<not> isSurrogate c" and r: "wellFormed (d # ds)"
      by (simp_all add: isSurrogate_def)
    from "3.IH"(2) [OF False r] have "wellFormed (filter P (d # ds))" .
    with c show ?thesis by (simp add: wellFormed_Cons del: wellFormed.simps)
  qed
qed

lemma wellFormed_splitAt:
  assumes "\<not> isSurrogate sep"
  shows "wellFormed s \<Longrightarrow>
         wellFormed (fst (splitAt sep s)) \<and> (\<forall>p\<in>set (snd (splitAt sep s)). wellFormed p)"
proof (induction s rule: wellFormed.induct)
  case 1
  then show ?case by simp
next
  case (2 c)
  then show ?case by simp
next
  case (3 c d ds)
  show ?case
  proof (cases "isLeadSurrogate c")
    case True
    with "3.prems" have d: "isTrailSurrogate d" and r: "wellFormed ds" by simp_all
    from True assms have c': "c \<noteq> sep" by (auto simp: isSurrogate_def)
    from d assms have d': "d \<noteq> sep" by (auto simp: isSurrogate_def)
    from "3.IH"(1) [OF True r] True d c' d' show ?thesis
      by (simp add: split_beta)
  next
    case False
    with "3.prems" have c: "\<not> isSurrogate c" and r: "wellFormed (d # ds)"
      by (simp_all add: isSurrogate_def)
    from "3.IH"(2) [OF False r] have
      ih: "wellFormed (fst (splitAt sep (d # ds))) \<and> (\<forall>p\<in>set (snd (splitAt sep (d # ds))). wellFormed p)" .
    have "splitAt sep (c # d # ds) =
            (if c = sep then ([], fst (splitAt sep (d # ds)) # snd (splitAt sep (d # ds)))
             else (c # fst (splitAt sep (d # ds)), snd (splitAt sep (d # ds))))"
      by (simp add: split_beta del: splitAt.simps(2)) (simp add: split_beta)
    with ih c show ?thesis by (simp add: wellFormed_Cons del: wellFormed.simps(3) splitAt.simps)
  qed
qed

lemma wellFormed_split:
  "\<not> isSurrogate sep \<Longrightarrow> wellFormed s \<Longrightarrow> p \<in> set (split sep s) \<Longrightarrow> wellFormed p"
  using wellFormed_splitAt [of sep s] by (auto simp: split_def split_beta)

lemma wellFormed_encodes: "wellFormed s \<Longrightarrow> \<exists>q. encodeURIComponent s = Inr q"
proof (induction s rule: encodeURIComponent.induct)
  case 1
  then show ?case by simp
next
  case (2 c)
  then show ?case by simp
next
  case (3 c d ds)
  show ?case
  proof (cases "isLeadSurrogate c")
    case True
    then have u: "\<not> uriUnreserved c" using unreserved_not_surrogate by (auto simp: isSurrogate_def)
    from True have t: "\<not> isTrailSurrogate c" by (rule lead_not_trail)
    from True "3.prems" have d: "isTrailSurrogate d" and r: "wellFormed ds" by simp_all
    from "3.IH"(2) [OF u t True d r] obtain q where "encodeURIComponent ds = Inr q" by blast
    with u t True d show ?thesis by (simp add: prepend_def)
  next
    case False
    with "3.prems" have t: "\<not> isTrailSurrogate c" and r: "wellFormed (d # ds)" by simp_all
    show ?thesis
    proof (cases "uriUnreserved c")
      case True
      from "3.IH"(1) [OF True r] obtain q where "encodeURIComponent (d # ds) = Inr q" by blast
      with True show ?thesis by (simp add: prepend_def)
    next
      case u: False
      from "3.IH"(3) [OF u t False r] obtain q where "encodeURIComponent (d # ds) = Inr q" by blast
      with u t False show ?thesis by (simp add: prepend_def)
    qed
  qed
qed


lemma separators_not_surrogate:
  "\<not> isSurrogate pipe" "\<not> isSurrogate newline" "\<not> isSurrogate 0x2E"
  by (simp_all add: isSurrogate_def isLeadSurrogate_def isTrailSurrogate_def pipe_def newline_def)

lemma wellFormed_ascii: "wellFormed (ascii '' '')" "wellFormed (ascii '','')"
  by (simp_all add: ascii_def isLeadSurrogate_def isTrailSurrogate_def)

lemma wellFormed_unknownRestaurant: "wellFormed unknownRestaurant"
  by (simp add: unknownRestaurant_def isLeadSurrogate_def isTrailSurrogate_def)

lemma wellFormed_qualifyingLines:
  "wellFormed txt \<Longrightarrow> line \<in> set (qualifyingLines txt) \<Longrightarrow> wellFormed line"
  using wellFormed_split [OF separators_not_surrogate(2)] by (auto simp: qualifyingLines_def)

lemma wellFormed_partsOf: "wellFormed line \<Longrightarrow> p \<in> set (partsOf line) \<Longrightarrow> wellFormed p"
  using wellFormed_split [OF separators_not_surrogate(1)] wellFormed_trim
  by (auto simp: partsOf_def)

lemma wellFormed_stripOrdinal: "wellFormed s \<Longrightarrow> wellFormed (stripOrdinal s)"
proof -
  assume w: "wellFormed s"
  then have d: "wellFormed (dropWhile isDigit s)"
    by (rule wellFormed_dropWhile [rotated]) (rule digit_not_surrogate)
  show ?thesis
  proof (cases "dropWhile isDigit s")
    case Nil
    show ?thesis unfolding stripOrdinal_def Nil by (simp add: w)
  next
    case (Cons c r)
    show ?thesis
    proof (cases "takeWhile isDigit s \<noteq> [] \<and> c = 0x2E")
      case True
      with d Cons have "wellFormed r"
        by (simp add: wellFormed_Cons separators_not_surrogate del: wellFormed.simps)
      then have "wellFormed (dropWhile isWhiteSpace r)"
        by (rule wellFormed_dropWhile [rotated]) (rule whiteSpace_not_surrogate)
      with True show ?thesis unfolding stripOrdinal_def Cons by simp
    next
      case False
      with w show ?thesis unfolding stripOrdinal_def Cons by auto
    qed
  qed
qed

lemma wellFormed_stripAsterisks: "wellFormed s \<Longrightarrow> wellFormed (stripAsterisks s)"
  unfolding stripAsterisks_def
  by (rule wellFormed_filter [rotated])
    (auto simp: isSurrogate_def isLeadSurrogate_def isTrailSurrogate_def)

lemma wellFormed_nameOf: "wellFormed line \<Longrightarrow> wellFormed (nameOf (partsOf line))"
proof -
  assume w: "wellFormed line"
  show ?thesis
  proof (cases "partsOf line")
    case Nil
    then show ?thesis
      by (simp add: nameOf_def at_def orElse_def wellFormed_unknownRestaurant)
  next
    case (Cons p ps)
    with w have "wellFormed p" using wellFormed_partsOf [of line p] by simp
    then have "wellFormed (stripAsterisks (stripOrdinal p))"
      by (intro wellFormed_stripAsterisks wellFormed_stripOrdinal)
    with Cons show ?thesis
      by (simp add: nameOf_def at_def orElse_def wellFormed_unknownRestaurant)
  qed
qed

lemma mapUriFor_wellFormed:
  assumes "wellFormed nm" and "wellFormed (str (lat location))" and "wellFormed (str (lng location))"
  shows "\<exists>u. mapUriFor lower str location chunks nm = Inr u"
proof -
  from assms have "wellFormed (searchQuery str location nm)"
    unfolding searchQuery_def by (intro wellFormed_append wellFormed_ascii)
  then obtain q where "encodeURIComponent (searchQuery str location nm) = Inr q"
    using wellFormed_encodes by blast
  then show ?thesis by (simp add: mapUriFor_def Let_def prepend_def)
qed

lemma toRestaurant_wellFormed:
  assumes "wellFormed line" and "wellFormed (str (lat location))" and "wellFormed (str (lng location))"
  shows "\<exists>r. toRestaurant lower str location chunks now index line = Inr r"
proof -
  from assms(1) have "wellFormed (nameOf (partsOf line))" by (rule wellFormed_nameOf)
  from mapUriFor_wellFormed [OF this assms(2,3)] show ?thesis
    by (auto simp: toRestaurant_Inr)
qed

lemma parseRestaurants_wellFormed:
  assumes "wellFormed txt" and "wellFormed (str (lat location))" and "wellFormed (str (lng location))"
  shows "\<exists>rs. parseRestaurants lower str clock location txt chunks = Inr rs"
  unfolding parseRestaurants_def
proof (rule mapIndexed_succeeds)
  fix k
  assume "k < length (take 5 (qualifyingLines txt))"
  then have "take 5 (qualifyingLines txt) ! k \<in> set (qualifyingLines txt)"
    by (metis in_set_takeD nth_mem)
  with assms(1) have "wellFormed (take 5 (qualifyingLines txt) ! k)"
    by (rule wellFormed_qualifyingLines)
  from toRestaurant_wellFormed [OF this assms(2,3)]
  show "\<exists>y. toRestaurant lower str location chunks (clock (0 + k)) (0 + k)
              (take 5 (qualifyingLines txt) ! k) = Inr y"
    by blast
qed

text \<open>
  On a response whose text has no unpaired surrogate (the coordinate being rendered
  without any, as numbers are), the call returns a record for each of the first five
  qualifying lines, in order, and nothing else.
\<close>

lemma fetch_wellFormed:
  assumes "wellFormed (textOf response)"
      and "wellFormed (str (lat location))" and "wellFormed (str (lng location))"
  shows "\<exists>rs. fetchRecommendations lower str clock location (Inr response) log = (log, Inr rs)
           \<and> length rs = min 5 (length (qualifyingLines (textOf response)))
           \<and> (\<forall>i<length rs.
                toRestaurant lower str location (chunksOf response) (clock i) i
                  (qualifyingLines (textOf response) ! i) = Inr (rs ! i))"
proof -
  from parseRestaurants_wellFormed [OF assms] obtain rs where
    p: "parseRestaurants lower str clock location (textOf response) (chunksOf response) = Inr rs"
    by blast
  then have "fetchRecommendations lower str clock location (Inr response) log = (log, Inr rs)"
    by (simp add: fetch_fulfilled)
  with parseRestaurants_nth [OF p] show ?thesis by blast
qed

lemma grounded_sibling_returns:
  "fetchRecommendations asciiLower showInt (sampleClock 1700000000000) \<lparr>lat = 25, lng = 121\<rparr>
     (Inr \<lparr>responseText = Some unpairedLine,
           candidates = Some [\<lparr>groundingMetadata = Some \<lparr>groundingChunks = Some [unpairedChunk]\<rparr>\<rparr>]\<rparr>) []
   = ([], Inr [\<lparr>idR = ascii ''rest-0-1700000000000'', name = [0xD800],
                 cuisine = [0x7F8E, 0x98DF], priceLevel = ascii ''$'', rating = ascii ''N/A'',
                 description = [0x66AB, 0x7121, 0x63CF, 0x8FF0, 0x3002],
                 mapUri = ascii ''U''\<rparr>])"
  by (simp add: unpairedLine_def unpairedChunk_def sampleClock_def string_eval encode_eval
      parse_eval fetch_eval)

subsection \<open>Where the fallback link cannot be built\<close>

text \<open>
  Claim C2 says that a response text with at least five lines that contain the pipe
  delimiter yields exactly five records, in the order of the lines. It holds on every
  well-formed text (\<open>fetch_wellFormed\<close>) but not on the text made of five lines, each an
  unpaired lead surrogate followed by a pipe, with no grounding chunk: the text has five
  qualifying lines, the fallback link of the first record cannot be percent-encoded,
  \<^verbatim>\<open>URIError\<close> is thrown, logged and thrown again, and no record is returned.
\<close>

theorem five_qualifying_lines_no_records:
  "length (qualifyingLines (textOf
       \<lparr>responseText = Some (unpairedLine @ [newline] @ unpairedLine @ [newline] @ unpairedLine
                              @ [newline] @ unpairedLine @ [newline] @ unpairedLine),
        candidates = None\<rparr>)) = 5
   \<and> fetchRecommendations asciiLower showInt (sampleClock 1700000000000) \<lparr>lat = 25, lng = 121\<rparr>
       (Inr \<lparr>responseText = Some (unpairedLine @ [newline] @ unpairedLine @ [newline] @ unpairedLine
                                   @ [newline] @ unpairedLine @ [newline] @ unpairedLine),
             candidates = None\<rparr>) []
     = ([URIError], Inl URIError)"
  by (simp add: unpairedLine_def string_eval encode_eval parse_eval fetch_eval)

text \<open>
  Claim C3 says that a response text with fewer than five lines that contain the pipe
  delimiter yields exactly one record for each of them. It holds on every well-formed text
  (\<open>fetch_wellFormed\<close>) but not on the text made of the one line of an unpaired lead
  surrogate followed by a pipe, with no grounding chunk: the text has one qualifying
  line and the call fails with \<^verbatim>\<open>URIError\<close>, returning no record. With a chunk that supplies
  a URI for the same name the call returns its one record (\<open>grounded_sibling_returns\<close>).
\<close>

theorem one_qualifying_line_no_record:
  "length (qualifyingLines (textOf \<lparr>responseText = Some unpairedLine, candidates = None\<rparr>)) = 1
   \<and> fetchRecommendations asciiLower showInt (sampleClock 1700000000000) \<lparr>lat = 25, lng = 121\<rparr>
       (Inr \<lparr>responseText = Some unpairedLine, candidates = None\<rparr>) []
     = ([URIError], Inl URIError)"
  by (simp add: unpairedLine_def string_eval encode_eval parse_eval fetch_eval)

text \<open>
  Claim C4 says that a qualifying line with fewer than five fields never throws, its
  absent fields taking their defaults, so that parsing is total over arbitrary response
  text. The fields of such a line do take their defaults (\<open>absent_fields_take_defaults\<close>),
  but building its record can throw: the line made of an unpaired lead surrogate and
  \<^verbatim>\<open>" | Thai"\<close> contains the pipe and has two fields, its price, rating and description are the
  defaults, and with no grounding chunk its record is not built: \<^verbatim>\<open>URIError\<close> is thrown and
  the whole call fails.
\<close>

theorem short_line_throws:
  "includesStr shortUnpairedLine [pipe]
   \<and> length (partsOf shortUnpairedLine) = 2
   \<and> nameOf (partsOf shortUnpairedLine) = [0xD800]
   \<and> cuisineOf (partsOf shortUnpairedLine) = ascii ''Thai''
   \<and> priceLevelOf (partsOf shortUnpairedLine) = ascii ''$''
   \<and> ratingOf (partsOf shortUnpairedLine) = ascii ''N/A''
   \<and> descriptionOf (partsOf shortUnpairedLine) = [0x66AB, 0x7121, 0x63CF, 0x8FF0, 0x3002]
   \<and> toRestaurant asciiLower showInt \<lparr>lat = 25, lng = 121\<rparr> [] 1700000000000 0 shortUnpairedLine
       = Inl URIError
   \<and> fetchRecommendations asciiLower showInt (sampleClock 1700000000000) \<lparr>lat = 25, lng = 121\<rparr>
       (Inr \<lparr>responseText = Some shortUnpairedLine, candidates = None\<rparr>) []
     = ([URIError], Inl URIError)"
  by (simp add: shortUnpairedLine_def string_eval encode_eval parse_eval fetch_eval)

subsection \<open>The clock and the identifiers\<close>

lemma mapIndexed_cong:
  "(\<And>k. k < length xs \<Longrightarrow> f (i + k) (xs ! k) = g (i + k) (xs ! k)) \<Longrightarrow>
   mapIndexed f i xs = mapIndexed g i xs"
proof (induction xs arbitrary: i)
  case Nil
  then show ?case by simp
next
  case (Cons x xs)
  from Cons.prems [of 0] have h: "f i x = g i x" by simp
  have "\<And>k. k < length xs \<Longrightarrow> f (Suc i + k) (xs ! k) = g (Suc i + k) (xs ! k)"
    using Cons.prems [of "Suc k" for k] by simp
  from Cons.IH [OF this] h show ?case by (simp split: sum.splits)
qed

lemma withoutIds_mapIndexed:
  "withoutIds (mapIndexed f i xs) =
     mapIndexed (\<lambda>j x. case f j x of Inl e \<Rightarrow> Inl e | Inr r \<Rightarrow> Inr (withoutId r)) i xs"
proof (induction xs arbitrary: i)
  case Nil
  then show ?case by (simp add: withoutIds_def)
next
  case (Cons x xs)
  have ih: "mapIndexed (\<lambda>j x. case f j x of Inl e \<Rightarrow> Inl e | Inr r \<Rightarrow> Inr (withoutId r)) (Suc i) xs =
            withoutIds (mapIndexed f (Suc i) xs)"
    using Cons.IH by simp
  show ?case
    by (cases "f i x"; cases "mapIndexed f (Suc i) xs") (simp_all add: ih withoutIds_def)
qed

lemma toRestaurant_withoutId:
  "(case toRestaurant lower str location chunks now index line of
      Inl e \<Rightarrow> Inl e | Inr r \<Rightarrow> Inr (withoutId r)) =
   (case toRestaurant lower str location chunks now' index line of
      Inl e \<Rightarrow> Inl e | Inr r \<Rightarrow> Inr (withoutId r))"
  by (simp add: toRestaurant_def withoutId_def Let_def split: sum.splits)

lemma parseRestaurants_withoutIds:
  "withoutIds (parseRestaurants lower str clock location txt chunks) =
   withoutIds (parseRestaurants lower str clock' location txt chunks)"
  unfolding parseRestaurants_def withoutIds_mapIndexed
  by (rule mapIndexed_cong) (rule toRestaurant_withoutId)

lemma parseRestaurants_clock:
  assumes "\<forall>i<5. clock i = clock' i"
  shows "parseRestaurants lower str clock location txt chunks =
         parseRestaurants lower str clock' location txt chunks"
  unfolding parseRestaurants_def
proof (rule mapIndexed_cong)
  fix k
  assume "k < length (take 5 (qualifyingLines txt))"
  then have "k < 5" by simp
  with assms have "clock k = clock' k" by blast
  then show "toRestaurant lower str location chunks (clock (0 + k)) (0 + k)
               (take 5 (qualifyingLines txt) ! k) =
             toRestaurant lower str location chunks (clock' (0 + k)) (0 + k)
               (take 5 (qualifyingLines txt) ! k)"
    by simp
qed

lemma snd_fetch:
  "snd (fetchRecommendations lower str clock location outcome log) =
     (case outcome of
        Inl e \<Rightarrow> Inl e
      | Inr response \<Rightarrow>
          parseRestaurants lower str clock location (textOf response) (chunksOf response))"
  by (simp add: fetchRecommendations_def split: sum.splits)

text \<open>
  Claim C9, as amended. For a fixed outcome of the service call and a fixed coordinate,
  two runs return results that agree on everything except the \<open>idR\<close> fields, which embed
  the clock readings; if the first five clock readings of the two runs agree, the results
  are identical.
\<close>
theorem deterministic_up_to_clock:
  "withoutIds (snd (fetchRecommendations lower str clock location outcome log)) =
   withoutIds (snd (fetchRecommendations lower str clock' location outcome log'))
   \<and> ((\<forall>i<5. clock i = clock' i) \<longrightarrow>
        snd (fetchRecommendations lower str clock location outcome log) =
        snd (fetchRecommendations lower str clock' location outcome log'))"
proof (intro conjI impI)
  show "withoutIds (snd (fetchRecommendations lower str clock location outcome log)) =
        withoutIds (snd (fetchRecommendations lower str clock' location outcome log'))"
    by (cases outcome) (simp_all add: snd_fetch parseRestaurants_withoutIds)
next
  assume "\<forall>i<5. clock i = clock' i"
  then show "snd (fetchRecommendations lower str clock location outcome log) =
        snd (fetchRecommendations lower str clock' location outcome log')"
    by (cases outcome) (simp_all add: snd_fetch parseRestaurants_clock)
qed

theorem deterministic_up_to_clock_witness:
  "snd (fetchRecommendations asciiLower showInt (sampleClock 1700000000000)
         \<lparr>lat = 25, lng = 121\<rparr> (Inr sampleResponse) []) =
   snd (fetchRecommendations asciiLower showInt
         (\<lambda>i. if i < 5 then sampleClock 1700000000000 i else 0)
         \<lparr>lat = 25, lng = 121\<rparr> (Inr sampleResponse) [URIError])"
proof -
  have "\<forall>i<5. sampleClock 1700000000000 i = (if i < 5 then sampleClock 1700000000000 i else 0)"
    by simp
  with deterministic_up_to_clock [of asciiLower showInt "sampleClock 1700000000000"
      "\<lparr>lat = 25, lng = 121\<rparr>" "Inr sampleResponse" "[]"
      "\<lambda>i. if i < 5 then sampleClock 1700000000000 i else 0" "[URIError]"]
  show ?thesis by blast
qed

text \<open>
  With all fields compared the claim fails: two runs on the same response whose clocks
  differ by one millisecond return records with different \<open>idR\<close>.
\<close>

theorem deterministic_counterexample:
  "snd (fetchRecommendations asciiLower showInt (sampleClock 1700000000000)
         \<lparr>lat = 25, lng = 121\<rparr> (Inr sampleResponse) []) \<noteq>
   snd (fetchRecommendations asciiLower showInt (sampleClock 1700000000001)
         \<lparr>lat = 25, lng = 121\<rparr> (Inr sampleResponse) [])"
  by (simp add: sampleClock_def sampleResponse_def string_eval encode_eval parse_eval fetch_eval)

end
